theory Spec2Isabelle
  imports Complex_Main "HOL-Library.Multiset" "HOL-Library.Char_ord" "HOL-Library.List_Lexorder"
begin

section \<open>Values\<close>

text \<open>
  A cell of a numeric column is a Python float. A finite float is read as the real number
  it denotes and a float literal of the script (\<^verbatim>\<open>35.4\<close>) as its decimal value; the
  missing marker of pandas is the float NaN. Infinities do not occur in the model.
\<close>

datatype pyfloat = NaN | Num real

type_synonym series = "pyfloat list"

text \<open>Python's \<^verbatim>\<open>x <= c\<close> and \<^verbatim>\<open>x > c\<close> on floats: every comparison with NaN is False.\<close>

fun py_le :: "pyfloat \<Rightarrow> real \<Rightarrow> bool" where
  "py_le NaN c = False"
| "py_le (Num x) c = (x \<le> c)"

fun py_gt :: "pyfloat \<Rightarrow> real \<Rightarrow> bool" where
  "py_gt NaN c = False"
| "py_gt (Num x) c = (x > c)"

section \<open>The AQI classifier\<close>

text \<open>
  \<^verbatim>\<open>
  def calculate_aqi_pm25(pm25_concentration):
      if pm25_concentration <= 12.0:    return "Good"
      elif pm25_concentration <= 35.4:  return "Moderate"
      elif pm25_concentration <= 55.4:  return "Unhealthy for Sensitive Groups"
      elif pm25_concentration <= 150.4: return "Unhealthy"
      elif pm25_concentration <= 250.4: return "Very Unhealthy"
      else:                             return "Hazardous"
  \<close>
\<close>

definition calculate_aqi_pm25 :: "pyfloat \<Rightarrow> string" where
  "calculate_aqi_pm25 pm25_concentration =
     (if py_le pm25_concentration 12.0 then ''Good''
      else if py_le pm25_concentration 35.4 then ''Moderate''
      else if py_le pm25_concentration 55.4 then ''Unhealthy for Sensitive Groups''
      else if py_le pm25_concentration 150.4 then ''Unhealthy''
      else if py_le pm25_concentration 250.4 then ''Very Unhealthy''
      else ''Hazardous'')"

definition categories :: "string list" where
  "categories = [''Good'', ''Moderate'', ''Unhealthy for Sensitive Groups'', ''Unhealthy'',
     ''Very Unhealthy'', ''Hazardous'']"

section \<open>The table\<close>

text \<open>
  The DataFrame read from the file: the station and timestamp columns and the numeric
  columns by name, all of one length. A timestamp (after \<^verbatim>\<open>pd.to_datetime\<close>) is a
  number of seconds since the epoch. \<^verbatim>\<open>df[col]\<close> of a name that is no column
  raises KeyError; the extremum of an empty series raises ValueError.
\<close>

datatype error = KeyError string | ValueError

record dataframe =
  Station_ID :: "string list"
  Timestamp :: "nat list"
  numeric :: "string \<rightharpoonup> series"

definition getitem :: "dataframe \<Rightarrow> string \<Rightarrow> error + series" where
  "getitem df col = (case numeric df col of None \<Rightarrow> Inl (KeyError col) | Some s \<Rightarrow> Inr s)"

definition setitem :: "dataframe \<Rightarrow> string \<Rightarrow> series \<Rightarrow> dataframe" where
  "setitem df col s = df\<lparr>numeric := (numeric df)(col \<mapsto> s)\<rparr>"

section \<open>The library operations of the cleaning step\<close>

text \<open>The values of a series that are not missing, in their order.\<close>

fun dropna :: "series \<Rightarrow> real list" where
  "dropna [] = []"
| "dropna (NaN # s) = dropna s"
| "dropna (Num x # s) = x # dropna s"

text \<open>
  \<^verbatim>\<open>Series.median()\<close> skips the missing values: the middle one of the others in
  ascending order, the mean of the two middle ones when their number is even, and NaN
  when there is none.
\<close>

definition median :: "series \<Rightarrow> pyfloat" where
  "median s =
     (let xs = sort (dropna s); n = length xs
      in if n = 0 then NaN
         else if odd n then Num (xs ! (n div 2))
         else Num ((xs ! (n div 2 - 1) + xs ! (n div 2)) / 2))"

text \<open>
  \<^verbatim>\<open>Series.fillna(value)\<close> puts the value in the place of every missing one; with
  NaN as the value the series stays as it is.
\<close>

definition fillna :: "pyfloat \<Rightarrow> series \<Rightarrow> series" where
  "fillna val s = map (\<lambda>v. case v of NaN \<Rightarrow> val | Num x \<Rightarrow> Num x) s"

text \<open>
  Python's \<^verbatim>\<open>max(a, x)\<close> keeps its first argument unless the second is greater, so
  \<^verbatim>\<open>max(0, nan)\<close> is 0.
\<close>

definition py_max :: "real \<Rightarrow> pyfloat \<Rightarrow> pyfloat" where
  "py_max a x = (if py_gt x a then x else Num a)"

section \<open>The cleaning step\<close>

text \<open>
  \<^verbatim>\<open>
  for col in ["PM2.5", "PM10", "O3", "NO2", "Temperature", "Humidity"]:
      df[col].fillna(df[col].median(), inplace=True)
  for col in ["PM2.5", "PM10", "O3", "NO2", "Temperature", "Humidity"]:
      df[col] = df[col].apply(lambda x: max(0, x))
  \<close>
  The script is written for pandas before copy-on-write, where \<^verbatim>\<open>df[col]\<close> is a view
  and the in-place fill changes the column of the table. Python evaluates the argument
  \<^verbatim>\<open>df[col].median()\<close> before the call, on the column as it stands.
\<close>

definition target_cols :: "string list" where
  "target_cols = [''PM2.5'', ''PM10'', ''O3'', ''NO2'', ''Temperature'', ''Humidity'']"

fun impute_loop :: "string list \<Rightarrow> dataframe \<Rightarrow> error + dataframe" where
  "impute_loop [] df = Inr df"
| "impute_loop (col # cols) df =
     (case getitem df col of
        Inl e \<Rightarrow> Inl e
      | Inr s \<Rightarrow> impute_loop cols (setitem df col (fillna (median s) s)))"

fun clamp_loop :: "string list \<Rightarrow> dataframe \<Rightarrow> error + dataframe" where
  "clamp_loop [] df = Inr df"
| "clamp_loop (col # cols) df =
     (case getitem df col of
        Inl e \<Rightarrow> Inl e
      | Inr s \<Rightarrow> clamp_loop cols (setitem df col (map (py_max 0) s)))"

text \<open>The two loops, each over its own list of column names.\<close>

definition clean_cols :: "string list \<Rightarrow> string list \<Rightarrow> dataframe \<Rightarrow> error + dataframe" where
  "clean_cols cols1 cols2 df =
     (case impute_loop cols1 df of Inl e \<Rightarrow> Inl e | Inr df1 \<Rightarrow> clamp_loop cols2 df1)"

definition cleaner :: "dataframe \<Rightarrow> error + dataframe" where
  "cleaner df = clean_cols target_cols target_cols df"

section \<open>The library operations of the analysis\<close>

text \<open>\<^verbatim>\<open>Series.mean()\<close> skips the missing values and is NaN when there is none.\<close>

definition mean :: "series \<Rightarrow> pyfloat" where
  "mean s =
     (let xs = dropna s in if xs = [] then NaN else Num (sum_list xs / real (length xs)))"

text \<open>A series with an index: the labels and their values, in the order of the index.\<close>

type_synonym 'k labelled = "('k \<times> pyfloat) list"

text \<open>
  \<^verbatim>\<open>df.groupby(key)[col].mean()\<close>: one entry for each distinct key, the keys in
  ascending order (\<^verbatim>\<open>sort=True\<close> is the default), each with the mean of its rows.
\<close>

definition groupby_mean :: "'k::linorder list \<Rightarrow> series \<Rightarrow> 'k labelled" where
  "groupby_mean keys vals =
     map (\<lambda>k. (k, mean (map snd (filter (\<lambda>(k', v). k' = k) (zip keys vals)))))
       (sort (remdups keys))"

text \<open>The entries that are not missing.\<close>

fun present :: "'k labelled \<Rightarrow> ('k \<times> real) list" where
  "present [] = []"
| "present ((k, NaN) # s) = present s"
| "present ((k, Num x) # s) = (k, x) # present s"

text \<open>
  The scan behind \<^verbatim>\<open>argmax\<close> and \<^verbatim>\<open>argmin\<close>: the entry kept so far is replaced
  only by a strictly greater (smaller) one, so the first of several extreme entries stays.
\<close>

fun first_max :: "'k \<times> real \<Rightarrow> ('k \<times> real) list \<Rightarrow> 'k \<times> real" where
  "first_max best [] = best"
| "first_max best (kx # s) = first_max (if snd kx > snd best then kx else best) s"

fun first_min :: "'k \<times> real \<Rightarrow> ('k \<times> real) list \<Rightarrow> 'k \<times> real" where
  "first_min best [] = best"
| "first_min best (kx # s) = first_min (if snd kx < snd best then kx else best) s"

text \<open>
  \<^verbatim>\<open>Series.idxmax()\<close> and \<^verbatim>\<open>Series.idxmin()\<close> skip the missing values. On an empty
  series they raise ValueError (attempt to get argmax of an empty sequence); on a series
  of missing values only, pandas 2 returns the missing label, here \<open>None\<close>.
  \<^verbatim>\<open>Series.max()\<close> and \<^verbatim>\<open>Series.min()\<close> do not raise: they are NaN when no value
  is present.
\<close>

definition idxmax :: "'k labelled \<Rightarrow> error + 'k option" where
  "idxmax s =
     (if s = [] then Inl ValueError
      else case present s of
             [] \<Rightarrow> Inr None
           | kx # rest \<Rightarrow> Inr (Some (fst (first_max kx rest))))"

definition idxmin :: "'k labelled \<Rightarrow> error + 'k option" where
  "idxmin s =
     (if s = [] then Inl ValueError
      else case present s of
             [] \<Rightarrow> Inr None
           | kx # rest \<Rightarrow> Inr (Some (fst (first_min kx rest))))"

definition smax :: "'k labelled \<Rightarrow> pyfloat" where
  "smax s = (case present s of [] \<Rightarrow> NaN | kx # rest \<Rightarrow> Num (snd (first_max kx rest)))"

definition smin :: "'k labelled \<Rightarrow> pyfloat" where
  "smin s = (case present s of [] \<Rightarrow> NaN | kx # rest \<Rightarrow> Num (snd (first_min kx rest)))"

text \<open>
  \<^verbatim>\<open>series.resample("H").mean()\<close> on a series indexed by timestamps: one bin for every
  hour from the hour of the earliest timestamp to the hour of the latest, labelled by the
  start of the hour, with the mean of the rows of that hour (NaN for an hour without
  rows). Without rows the result is the empty series.
\<close>

definition resample_H_mean :: "(nat \<times> pyfloat) list \<Rightarrow> nat labelled" where
  "resample_H_mean rows =
     (case map (\<lambda>(t, v). t div 3600) rows of
        [] \<Rightarrow> []
      | h # hs \<Rightarrow>
          map (\<lambda>b. (b * 3600, mean (map snd (filter (\<lambda>(t, v). t div 3600 = b) rows))))
            [fold min hs h ..< Suc (fold max hs h)])"

text \<open>The calendar date (as a day number) and the hour of the day of a timestamp.\<close>

definition date :: "nat \<Rightarrow> nat" where
  "date ts = ts div 86400"

definition hour :: "nat \<Rightarrow> nat" where
  "hour ts = (ts div 3600) mod 24"

text \<open>
  \<^verbatim>\<open>DataFrame.corr()\<close>: the Pearson coefficient of two columns over the rows where both
  have a value. It is NaN with fewer than one such row (\<^verbatim>\<open>min_periods=1\<close>) and when
  the divisor is zero; otherwise the quotient, clipped to the interval from -1 to 1.
\<close>

fun complete_pairs :: "series \<Rightarrow> series \<Rightarrow> (real \<times> real) list" where
  "complete_pairs (Num x # a) (Num y # b) = (x, y) # complete_pairs a b"
| "complete_pairs (u # a) (v # b) = complete_pairs a b"
| "complete_pairs a b = []"

definition avg :: "real list \<Rightarrow> real" where
  "avg xs = sum_list xs / real (length xs)"

definition corr :: "series \<Rightarrow> series \<Rightarrow> pyfloat" where
  "corr a b =
     (let ps = complete_pairs a b; xs = map fst ps; ys = map snd ps
      in if length ps < 1 then NaN
         else
           let ssqdm_x = (\<Sum>x\<leftarrow>xs. (x - avg xs) * (x - avg xs));
               ssqdm_y = (\<Sum>y\<leftarrow>ys. (y - avg ys) * (y - avg ys));
               covxy = (\<Sum>(x, y)\<leftarrow>ps. (x - avg xs) * (y - avg ys));
               divisor = sqrt (ssqdm_x * ssqdm_y)
           in if divisor \<noteq> 0 then Num (max (- 1) (min 1 (covxy / divisor))) else NaN)"

text \<open>\<^verbatim>\<open>df[cols]\<close> with a list of names raises KeyError when one of them is no column.\<close>

fun select_cols :: "dataframe \<Rightarrow> string list \<Rightarrow> error + series list" where
  "select_cols df [] = Inr []"
| "select_cols df (c # cs) =
     (case getitem df c of
        Inl e \<Rightarrow> Inl e
      | Inr s \<Rightarrow> (case select_cols df cs of Inl e \<Rightarrow> Inl e | Inr ss \<Rightarrow> Inr (s # ss)))"

definition corr_matrix :: "series list \<Rightarrow> pyfloat list list" where
  "corr_matrix ss = map (\<lambda>a. map (\<lambda>b. corr a b) ss) ss"

section \<open>The analysis steps of the script\<close>

text \<open>
  \<^verbatim>\<open>
  pollutants = ["PM2.5", "PM10", "O3", "NO2"]
  correlation_cols = pollutants + ["Temperature", "Humidity"]
  print(df[correlation_cols].corr())
  \<close>
\<close>

definition pollutants :: "string list" where
  "pollutants = [''PM2.5'', ''PM10'', ''O3'', ''NO2'']"

definition correlation_cols :: "string list" where
  "correlation_cols = pollutants @ [''Temperature'', ''Humidity'']"

definition correlation_matrix :: "dataframe \<Rightarrow> error + pyfloat list list" where
  "correlation_matrix df =
     (case select_cols df correlation_cols of Inl e \<Rightarrow> Inl e | Inr ss \<Rightarrow> Inr (corr_matrix ss))"

text \<open>
  \<^verbatim>\<open>
  avg_pm25_by_station = df.groupby("Station ID")["PM2.5"].mean()
  highest_pm25_station = avg_pm25_by_station.idxmax()
  highest_pm25_value = avg_pm25_by_station.max()
  avg_o3_by_station = df.groupby("Station ID")["O3"].mean()
  lowest_o3_station = avg_o3_by_station.idxmin()
  lowest_o3_value = avg_o3_by_station.min()
  \<close>
\<close>

definition avg_pm25_by_station :: "dataframe \<Rightarrow> error + string labelled" where
  "avg_pm25_by_station df =
     (case getitem df ''PM2.5'' of
        Inl e \<Rightarrow> Inl e
      | Inr s \<Rightarrow> Inr (groupby_mean (Station_ID df) s))"

definition highest_pm25_station :: "dataframe \<Rightarrow> error + string option" where
  "highest_pm25_station df =
     (case avg_pm25_by_station df of Inl e \<Rightarrow> Inl e | Inr a \<Rightarrow> idxmax a)"

definition highest_pm25_value :: "dataframe \<Rightarrow> error + pyfloat" where
  "highest_pm25_value df =
     (case highest_pm25_station df of
        Inl e \<Rightarrow> Inl e
      | Inr k \<Rightarrow> (case avg_pm25_by_station df of Inl e \<Rightarrow> Inl e | Inr a \<Rightarrow> Inr (smax a)))"

definition avg_o3_by_station :: "dataframe \<Rightarrow> error + string labelled" where
  "avg_o3_by_station df =
     (case getitem df ''O3'' of
        Inl e \<Rightarrow> Inl e
      | Inr s \<Rightarrow> Inr (groupby_mean (Station_ID df) s))"

definition lowest_o3_station :: "dataframe \<Rightarrow> error + string option" where
  "lowest_o3_station df =
     (case avg_o3_by_station df of Inl e \<Rightarrow> Inl e | Inr a \<Rightarrow> idxmin a)"

definition lowest_o3_value :: "dataframe \<Rightarrow> error + pyfloat" where
  "lowest_o3_value df =
     (case lowest_o3_station df of
        Inl e \<Rightarrow> Inl e
      | Inr k \<Rightarrow> (case avg_o3_by_station df of Inl e \<Rightarrow> Inl e | Inr a \<Rightarrow> Inr (smin a)))"

text \<open>
  \<^verbatim>\<open>
  specific_station_id = "S003"
  s003_df = df[df["Station ID"] == specific_station_id].copy()
  s003_df["Date"] = s003_df["Timestamp"].dt.date
  daily_avg_pm25_s003 = s003_df.groupby("Date")["PM2.5"].mean()
  threshold = 50
  days_exceeding_threshold = daily_avg_pm25_s003[daily_avg_pm25_s003 > threshold]
  \<close>
  The rows of the table are the positions of its columns, read side by side.
\<close>

definition specific_station_id :: string where
  "specific_station_id = ''S003''"

definition threshold :: real where
  "threshold = 50"

definition daily_avg_pm25_s003 :: "dataframe \<Rightarrow> error + nat labelled" where
  "daily_avg_pm25_s003 df =
     (case getitem df ''PM2.5'' of
        Inl e \<Rightarrow> Inl e
      | Inr s \<Rightarrow>
          let s003_df = filter (\<lambda>(st, ts, v). st = specific_station_id)
                (zip (Station_ID df) (zip (Timestamp df) s))
          in Inr (groupby_mean (map (\<lambda>(st, ts, v). date ts) s003_df)
                (map (\<lambda>(st, ts, v). v) s003_df)))"

definition days_exceeding_threshold :: "dataframe \<Rightarrow> error + nat labelled" where
  "days_exceeding_threshold df =
     (case daily_avg_pm25_s003 df of
        Inl e \<Rightarrow> Inl e
      | Inr daily \<Rightarrow> Inr (filter (\<lambda>(day, v). py_gt v threshold) daily))"

text \<open>
  \<^verbatim>\<open>
  station_s001_first_day = df[(df["Station ID"] == "S001") &
      (df["Timestamp"].dt.date == df["Timestamp"].dt.date.min())]
  hourly_pm25_s001 = station_s001_first_day.set_index("Timestamp")["PM2.5"].resample("H").mean()
  peak_hour_pm25 = hourly_pm25_s001.idxmax().hour
  peak_pm25_value = hourly_pm25_s001.max()
  \<close>
  The first day is the least date of the whole table; a table without rows has none.
\<close>

definition first_date :: "dataframe \<Rightarrow> nat option" where
  "first_date df =
     (case map date (Timestamp df) of [] \<Rightarrow> None | d # ds \<Rightarrow> Some (fold min ds d))"

definition hourly_pm25_s001 :: "dataframe \<Rightarrow> error + nat labelled" where
  "hourly_pm25_s001 df =
     (case getitem df ''PM2.5'' of
        Inl e \<Rightarrow> Inl e
      | Inr s \<Rightarrow>
          let station_s001_first_day =
                filter (\<lambda>(st, ts, v). st = ''S001'' \<and> Some (date ts) = first_date df)
                  (zip (Station_ID df) (zip (Timestamp df) s))
          in Inr (resample_H_mean (map (\<lambda>(st, ts, v). (ts, v)) station_s001_first_day)))"

definition peak_hour_pm25 :: "dataframe \<Rightarrow> error + nat option" where
  "peak_hour_pm25 df =
     (case hourly_pm25_s001 df of
        Inl e \<Rightarrow> Inl e
      | Inr hourly \<Rightarrow>
          (case idxmax hourly of Inl e \<Rightarrow> Inl e | Inr ts \<Rightarrow> Inr (map_option hour ts)))"

definition peak_pm25_value :: "dataframe \<Rightarrow> error + pyfloat" where
  "peak_pm25_value df =
     (case peak_hour_pm25 df of
        Inl e \<Rightarrow> Inl e
      | Inr h \<Rightarrow> (case hourly_pm25_s001 df of Inl e \<Rightarrow> Inl e | Inr hourly \<Rightarrow> Inr (smax hourly)))"

section \<open>Auxiliary notions for the proofs\<close>

text \<open>What the first loop does to one column.\<close>

definition fill_median :: "series \<Rightarrow> series" where
  "fill_median s = fillna (median s) s"

text \<open>The table with a function applied to each column of a set of names.\<close>

definition on_cols :: "(series \<Rightarrow> series) \<Rightarrow> string set \<Rightarrow> dataframe \<Rightarrow> dataframe" where
  "on_cols f C df =
     df\<lparr>numeric := (\<lambda>c. if c \<in> C then map_option f (numeric df c) else numeric df c)\<rparr>"

text \<open>A column whose values that are not missing are all the same.\<close>

definition constant_col :: "series \<Rightarrow> bool" where
  "constant_col s = (\<forall>x \<in> set (dropna s). \<forall>y \<in> set (dropna s). x = y)"

text \<open>The sum of the squared deviations from the mean.\<close>

definition ssqdm :: "real list \<Rightarrow> real" where
  "ssqdm xs = (\<Sum>x\<leftarrow>xs. (x - avg xs) * (x - avg xs))"

text \<open>
  A small table: five hourly rows of one station. Its PM2.5 column has two gaps, its O3
  column has no observation at all, and its temperatures go below zero.
\<close>

definition example_df :: dataframe where
  "example_df =
     \<lparr>Station_ID = [''S001'', ''S001'', ''S001'', ''S001'', ''S001''],
      Timestamp = [0, 3600, 7200, 10800, 14400],
      numeric =
        [''PM2.5'' \<mapsto> [Num 10, NaN, Num 20, NaN, Num 30],
         ''PM10'' \<mapsto> [Num 40, Num 41, NaN, Num 43, Num 44],
         ''O3'' \<mapsto> [NaN, NaN, NaN, NaN, NaN],
         ''NO2'' \<mapsto> [Num 7, Num 7, Num 7, Num 7, Num 7],
         ''Temperature'' \<mapsto> [Num (-5), Num 0, Num 5, NaN, Num (-1)],
         ''Humidity'' \<mapsto> [Num 50, Num 60, Num 55, Num 65, NaN]]\<rparr>"

text \<open>
  A table of two stations over two days: the rows of S003 have the daily PM2.5 means 55
  and 48.
\<close>

definition two_day_df :: dataframe where
  "two_day_df =
     \<lparr>Station_ID = [''S001'', ''S003'', ''S003'', ''S001'', ''S003'', ''S003''],
      Timestamp = [0, 0, 3600, 86400, 86400, 90000],
      numeric =
        [''PM2.5'' \<mapsto> [Num 10, Num 50, Num 60, Num 90, Num 40, Num 56],
         ''PM10'' \<mapsto> [Num 1, Num 2, Num 3, Num 4, Num 5, Num 6],
         ''O3'' \<mapsto> [Num 1, Num 2, Num 3, Num 4, Num 5, Num 6],
         ''NO2'' \<mapsto> [Num 1, Num 2, Num 3, Num 4, Num 5, Num 6],
         ''Temperature'' \<mapsto> [Num 1, Num 2, Num 3, Num 4, Num 5, Num 6],
         ''Humidity'' \<mapsto> [Num 1, Num 2, Num 3, Num 4, Num 5, Num 6]]\<rparr>"

text \<open>A table with the six columns and no row of S001 or S003.\<close>

definition no_s001_df :: dataframe where
  "no_s001_df =
     \<lparr>Station_ID = [''S002'', ''S002''],
      Timestamp = [0, 3600],
      numeric =
        [''PM2.5'' \<mapsto> [Num 10, Num 50],
         ''PM10'' \<mapsto> [Num 1, Num 2],
         ''O3'' \<mapsto> [Num 1, Num 2],
         ''NO2'' \<mapsto> [Num 1, Num 2],
         ''Temperature'' \<mapsto> [Num 1, Num 2],
         ''Humidity'' \<mapsto> [Num 1, Num 2]]\<rparr>"

text \<open>A table in which S001 has a row, but none on the first day.\<close>

definition off_day_df :: dataframe where
  "off_day_df =
     \<lparr>Station_ID = [''S002'', ''S001''],
      Timestamp = [0, 86400],
      numeric =
        [''PM2.5'' \<mapsto> [Num 10, Num 50],
         ''PM10'' \<mapsto> [Num 1, Num 2],
         ''O3'' \<mapsto> [Num 1, Num 2],
         ''NO2'' \<mapsto> [Num 1, Num 2],
         ''Temperature'' \<mapsto> [Num 1, Num 2],
         ''Humidity'' \<mapsto> [Num 1, Num 2]]\<rparr>"

text \<open>The table with the six columns and no row.\<close>

definition empty_df :: dataframe where
  "empty_df =
     \<lparr>Station_ID = [], Timestamp = [],
      numeric = [''PM2.5'' \<mapsto> [], ''PM10'' \<mapsto> [], ''O3'' \<mapsto> [], ''NO2'' \<mapsto> [],
         ''Temperature'' \<mapsto> [], ''Humidity'' \<mapsto> []]\<rparr>"

section \<open>Properties of the classifier\<close>

lemma categories_distinct: "distinct categories"
  by (simp add: categories_def)

text \<open>
  Claim C1. Every finite reading falls into exactly one of the six categories, the one
  whose interval (open below, closed above) holds it; an exact breakpoint belongs to the
  lower category.
\<close>

theorem calculate_aqi_pm25_breakpoints:
  "(x \<le> 12.0 \<longrightarrow> calculate_aqi_pm25 (Num x) = ''Good'') \<and>
   (12.0 < x \<and> x \<le> 35.4 \<longrightarrow> calculate_aqi_pm25 (Num x) = ''Moderate'') \<and>
   (35.4 < x \<and> x \<le> 55.4 \<longrightarrow>
      calculate_aqi_pm25 (Num x) = ''Unhealthy for Sensitive Groups'') \<and>
   (55.4 < x \<and> x \<le> 150.4 \<longrightarrow> calculate_aqi_pm25 (Num x) = ''Unhealthy'') \<and>
   (150.4 < x \<and> x \<le> 250.4 \<longrightarrow> calculate_aqi_pm25 (Num x) = ''Very Unhealthy'') \<and>
   (250.4 < x \<longrightarrow> calculate_aqi_pm25 (Num x) = ''Hazardous'') \<and>
   calculate_aqi_pm25 (Num x) \<in> set categories \<and>
   calculate_aqi_pm25 (Num 12.0) = ''Good'' \<and>
   calculate_aqi_pm25 (Num 35.4) = ''Moderate'' \<and>
   calculate_aqi_pm25 (Num 55.4) = ''Unhealthy for Sensitive Groups'' \<and>
   calculate_aqi_pm25 (Num 150.4) = ''Unhealthy'' \<and>
   calculate_aqi_pm25 (Num 250.4) = ''Very Unhealthy''"
  by (simp add: calculate_aqi_pm25_def categories_def)

theorem calculate_aqi_pm25_breakpoints_witness:
  "calculate_aqi_pm25 (Num 12.1) = ''Moderate'' \<and>
   calculate_aqi_pm25 (Num 35.5) = ''Unhealthy for Sensitive Groups'' \<and>
   calculate_aqi_pm25 (Num 55.5) = ''Unhealthy'' \<and>
   calculate_aqi_pm25 (Num 150.5) = ''Very Unhealthy'' \<and>
   calculate_aqi_pm25 (Num 250.5) = ''Hazardous'' \<and>
   calculate_aqi_pm25 (Num 3) = ''Good''"
  using calculate_aqi_pm25_breakpoints [of "12.1"] calculate_aqi_pm25_breakpoints [of "35.5"]
    calculate_aqi_pm25_breakpoints [of "55.5"] calculate_aqi_pm25_breakpoints [of "150.5"]
    calculate_aqi_pm25_breakpoints [of "250.5"] calculate_aqi_pm25_breakpoints [of 3]
  by simp

text \<open>
  Claim C4. The classifier has no failing branch: every input, NaN included, gets one of
  the six labels, and a negative reading is labelled Good by the first comparison.
\<close>

theorem calculate_aqi_pm25_total:
  "calculate_aqi_pm25 v \<in> set categories \<and>
   (x < 0 \<longrightarrow> calculate_aqi_pm25 (Num x) = ''Good'' \<and> py_le (Num x) 12.0)"
  by (cases v) (simp_all add: calculate_aqi_pm25_def categories_def)

theorem calculate_aqi_pm25_total_witness:
  "(-5 :: real) < 0 \<and> calculate_aqi_pm25 (Num (-5)) = ''Good'' \<and> py_le (Num (-5)) 12.0 \<and>
   calculate_aqi_pm25 NaN \<in> set categories"
  using calculate_aqi_pm25_total [of NaN "-5"]
  by simp

section \<open>Properties of the cleaning step\<close>

subsection \<open>Filling and clamping one column\<close>

lemma fillna_NaN: "fillna NaN s = s"
  by (induction s rule: dropna.induct) (simp_all add: fillna_def)

lemma fillna_without_NaN: "NaN \<notin> set s \<Longrightarrow> fillna v s = s"
  by (induction s rule: dropna.induct) (simp_all add: fillna_def)

lemma fillna_Num_no_NaN: "NaN \<notin> set (fillna (Num m) s)"
  by (induction s rule: dropna.induct) (simp_all add: fillna_def)

lemma fillna_eq_map: "fillna val s = map (\<lambda>v. if v = NaN then val else v) s"
  by (induction s rule: dropna.induct) (simp_all add: fillna_def)

lemma dropna_empty_iff: "dropna s = [] \<longleftrightarrow> (\<forall>v \<in> set s. v = NaN)"
  by (induction s rule: dropna.induct) simp_all

lemma sort_Nil_iff: "sort xs = [] \<longleftrightarrow> xs = []"
  by (metis length_0_conv length_sort)

lemma median_NaN_iff: "median s = NaN \<longleftrightarrow> dropna s = []"
  by (simp add: median_def Let_def sort_Nil_iff)

lemma fill_median_idem: "fill_median (fill_median s) = fill_median s"
  by (cases "median s")
    (simp_all add: fill_median_def fillna_NaN fillna_without_NaN fillna_Num_no_NaN)

lemma NaN_in_fill_median: "NaN \<in> set (fill_median s) \<longleftrightarrow> s \<noteq> [] \<and> dropna s = []"
proof (cases "median s")
  case NaN
  then have "dropna s = []" by (simp add: median_NaN_iff)
  moreover from this have "NaN \<in> set s \<longleftrightarrow> s \<noteq> []"
    by (cases s) (auto simp: dropna_empty_iff)
  ultimately show ?thesis using NaN by (simp add: fill_median_def fillna_NaN)
next
  case (Num m)
  then have "dropna s \<noteq> []" using median_NaN_iff [of s] by simp
  then show ?thesis using Num by (simp add: fill_median_def fillna_Num_no_NaN)
qed

lemma py_max_nonneg: "\<exists>x. py_max 0 v = Num x \<and> 0 \<le> x"
  by (cases v) (simp_all add: py_max_def)

lemma py_max_idem: "py_max 0 (py_max 0 v) = py_max 0 v"
  by (cases v) (simp_all add: py_max_def)

lemma map_py_max_idem: "map (py_max 0) (map (py_max 0) s) = map (py_max 0) s"
  by (simp add: py_max_idem)

subsection \<open>The loops in closed form\<close>

lemma on_cols_step:
  assumes "numeric df col = Some s" "\<And>t. f (f t) = f t"
  shows "on_cols f C (setitem df col (f s)) = on_cols f (insert col C) df"
  unfolding on_cols_def setitem_def using assms by (auto simp: fun_eq_iff)

lemma dom_on_cols: "dom (numeric (on_cols f C df)) = dom (numeric df)"
  by (auto simp: on_cols_def split: if_splits)

lemma numeric_on_cols:
  "numeric (on_cols f C df) c = (if c \<in> C then map_option f (numeric df c) else numeric df c)"
  by (simp add: on_cols_def)

lemma impute_loop_closed:
  "set cols \<subseteq> dom (numeric df) \<Longrightarrow>
   impute_loop cols df = Inr (on_cols fill_median (set cols) df)"
proof (induction cols arbitrary: df)
  case Nil
  show ?case by (simp add: on_cols_def)
next
  case (Cons col cols)
  then obtain s where s: "numeric df col = Some s" by auto
  let ?df = "setitem df col (fill_median s)"
  have "set cols \<subseteq> dom (numeric ?df)" using Cons.prems by (auto simp: setitem_def)
  then have "impute_loop cols ?df = Inr (on_cols fill_median (set cols) ?df)" by (rule Cons.IH)
  also have "on_cols fill_median (set cols) ?df = on_cols fill_median (insert col (set cols)) df"
    using s by (rule on_cols_step) (rule fill_median_idem)
  finally show ?case using s by (simp add: getitem_def fill_median_def [symmetric])
qed

lemma clamp_loop_closed:
  "set cols \<subseteq> dom (numeric df) \<Longrightarrow>
   clamp_loop cols df = Inr (on_cols (map (py_max 0)) (set cols) df)"
proof (induction cols arbitrary: df)
  case Nil
  show ?case by (simp add: on_cols_def)
next
  case (Cons col cols)
  then obtain s where s: "numeric df col = Some s" by auto
  let ?df = "setitem df col (map (py_max 0) s)"
  have "set cols \<subseteq> dom (numeric ?df)" using Cons.prems by (auto simp: setitem_def)
  then have "clamp_loop cols ?df = Inr (on_cols (map (py_max 0)) (set cols) ?df)"
    by (rule Cons.IH)
  also have "on_cols (map (py_max 0)) (set cols) ?df =
      on_cols (map (py_max 0)) (insert col (set cols)) df"
    using s by (rule on_cols_step) (rule map_py_max_idem)
  finally show ?case using s by (simp add: getitem_def)
qed

text \<open>A loop that ends without KeyError found every column it names.\<close>

lemma impute_loop_dom: "impute_loop cols df = Inr df' \<Longrightarrow> set cols \<subseteq> dom (numeric df)"
proof (induction cols arbitrary: df)
  case Nil
  show ?case by simp
next
  case (Cons col cols)
  from Cons.prems obtain s where s: "numeric df col = Some s"
    by (auto simp: getitem_def split: option.splits)
  with Cons.prems have "impute_loop cols (setitem df col (fillna (median s) s)) = Inr df'"
    by (simp add: getitem_def)
  then have "set cols \<subseteq> dom (numeric (setitem df col (fillna (median s) s)))"
    by (rule Cons.IH)
  with s show ?case by (auto simp: setitem_def split: if_splits)
qed

lemma clamp_loop_dom: "clamp_loop cols df = Inr df' \<Longrightarrow> set cols \<subseteq> dom (numeric df)"
proof (induction cols arbitrary: df)
  case Nil
  show ?case by simp
next
  case (Cons col cols)
  from Cons.prems obtain s where s: "numeric df col = Some s"
    by (auto simp: getitem_def split: option.splits)
  with Cons.prems have "clamp_loop cols (setitem df col (map (py_max 0) s)) = Inr df'"
    by (simp add: getitem_def)
  then have "set cols \<subseteq> dom (numeric (setitem df col (map (py_max 0) s)))"
    by (rule Cons.IH)
  with s show ?case by (auto simp: setitem_def split: if_splits)
qed

lemma clean_cols_closed:
  assumes "set cols1 \<union> set cols2 \<subseteq> dom (numeric df)"
  shows "clean_cols cols1 cols2 df =
    Inr (on_cols (map (py_max 0)) (set cols2) (on_cols fill_median (set cols1) df))"
  using assms by (simp add: clean_cols_def impute_loop_closed clamp_loop_closed dom_on_cols)

lemma clean_cols_dom:
  assumes "clean_cols cols1 cols2 df = Inr df'"
  shows "set cols1 \<union> set cols2 \<subseteq> dom (numeric df)"
proof -
  from assms obtain df1
    where 1: "impute_loop cols1 df = Inr df1" and 2: "clamp_loop cols2 df1 = Inr df'"
    by (auto simp: clean_cols_def split: sum.splits)
  from 1 have d1: "set cols1 \<subseteq> dom (numeric df)" by (rule impute_loop_dom)
  with 1 have "df1 = on_cols fill_median (set cols1) df" by (simp add: impute_loop_closed)
  with clamp_loop_dom [OF 2] have "set cols2 \<subseteq> dom (numeric df)" by (simp add: dom_on_cols)
  with d1 show ?thesis by simp
qed

lemma example_df_dom: "set target_cols \<subseteq> dom (numeric example_df)"
  by (simp add: target_cols_def example_df_def)

subsection \<open>The cleaned table\<close>

text \<open>
  Claim C2. On a table that has the six target columns the cleaning step ends without an
  error, and in the table it returns every value of each target column is a number (not
  missing) and is not negative; the columns keep their lengths.
\<close>

theorem cleaner_nonnull_nonneg:
  assumes "set target_cols \<subseteq> dom (numeric df)"
  shows "\<exists>df'. cleaner df = Inr df' \<and>
    (\<forall>col \<in> set target_cols. \<exists>s s'. numeric df col = Some s \<and> numeric df' col = Some s' \<and>
       length s' = length s \<and> (\<forall>v \<in> set s'. \<exists>x. v = Num x \<and> 0 \<le> x))"
proof -
  let ?df' = "on_cols (map (py_max 0)) (set target_cols) (on_cols fill_median (set target_cols) df)"
  have c: "cleaner df = Inr ?df'"
    using assms by (simp add: cleaner_def clean_cols_closed)
  have "\<exists>s s'. numeric df col = Some s \<and> numeric ?df' col = Some s' \<and>
       length s' = length s \<and> (\<forall>v \<in> set s'. \<exists>x. v = Num x \<and> 0 \<le> x)"
    if "col \<in> set target_cols" for col
  proof -
    from that assms obtain s where s: "numeric df col = Some s" by auto
    have "numeric ?df' col = Some (map (py_max 0) (fill_median s))"
      using that s by (simp add: numeric_on_cols)
    moreover have "length (map (py_max 0) (fill_median s)) = length s"
      by (simp add: fill_median_def fillna_def)
    moreover have "\<forall>v \<in> set (map (py_max 0) (fill_median s)). \<exists>x. v = Num x \<and> 0 \<le> x"
      using py_max_nonneg by auto
    ultimately show ?thesis using s by blast
  qed
  with c show ?thesis by blast
qed

theorem cleaner_nonnull_nonneg_witness:
  "set target_cols \<subseteq> dom (numeric example_df) \<and>
   (\<exists>df'. cleaner example_df = Inr df' \<and>
      numeric df' ''Temperature'' = Some [Num 0, Num 0, Num 5, Num 0, Num 0])"
proof -
  have d: "set target_cols \<subseteq> dom (numeric example_df)" by (rule example_df_dom)
  from cleaner_nonnull_nonneg [OF d] obtain df' where c: "cleaner example_df = Inr df'" by blast
  have "cleaner example_df = Inr (on_cols (map (py_max 0)) (set target_cols) (on_cols fill_median (set target_cols) example_df))"
    using d by (simp add: cleaner_def clean_cols_closed)
  with c have "df' = on_cols (map (py_max 0)) (set target_cols) (on_cols fill_median (set target_cols) example_df)" by simp
  then have "numeric df' ''Temperature'' = Some [Num 0, Num 0, Num 5, Num 0, Num 0]"
    by (simp add: numeric_on_cols target_cols_def example_df_def fill_median_def fillna_def median_def py_max_def)
  with d c show ?thesis by blast
qed

subsection \<open>The median\<close>

text \<open>
  The value \<open>median\<close> returns is a median of the values that are not missing: at
  least half of them are not above it and at least half are not below it.
\<close>

lemma count_le_sorted:
  fixes xs :: "real list"
  assumes "sorted xs" "i < length xs" "xs ! i \<le> m"
  shows "Suc i \<le> length (filter (\<lambda>x. x \<le> m) xs)"
proof -
  have "\<forall>x \<in> set (take (Suc i) xs). x \<le> m"
  proof
    fix x assume "x \<in> set (take (Suc i) xs)"
    then obtain j where "j < Suc i" "j < length xs" "x = xs ! j"
      by (auto simp: in_set_conv_nth)
    with assms(1,2) have "x \<le> xs ! i" by (simp add: sorted_nth_mono)
    with assms(3) show "x \<le> m" by simp
  qed
  then have "filter (\<lambda>x. x \<le> m) (take (Suc i) xs) = take (Suc i) xs" by simp
  moreover have "filter (\<lambda>x. x \<le> m) xs =
      filter (\<lambda>x. x \<le> m) (take (Suc i) xs) @ filter (\<lambda>x. x \<le> m) (drop (Suc i) xs)"
    by (metis append_take_drop_id filter_append)
  ultimately have "length (filter (\<lambda>x. x \<le> m) xs) \<ge> length (take (Suc i) xs)" by simp
  with assms(2) show ?thesis by simp
qed

lemma count_ge_sorted:
  fixes xs :: "real list"
  assumes "sorted xs" "i < length xs" "m \<le> xs ! i"
  shows "length xs - i \<le> length (filter (\<lambda>x. m \<le> x) xs)"
proof -
  have "\<forall>x \<in> set (drop i xs). m \<le> x"
  proof
    fix x assume "x \<in> set (drop i xs)"
    then obtain j where "j < length xs - i" "x = xs ! (i + j)"
      by (auto simp: in_set_conv_nth)
    with assms(1,2) have "xs ! i \<le> x" by (simp add: sorted_nth_mono)
    with assms(3) show "m \<le> x" by simp
  qed
  then have "filter (\<lambda>x. m \<le> x) (drop i xs) = drop i xs" by simp
  moreover have "filter (\<lambda>x. m \<le> x) xs =
      filter (\<lambda>x. m \<le> x) (take i xs) @ filter (\<lambda>x. m \<le> x) (drop i xs)"
    by (metis append_take_drop_id filter_append)
  ultimately have "length (filter (\<lambda>x. m \<le> x) xs) \<ge> length (drop i xs)" by simp
  then show ?thesis by simp
qed

lemma length_filter_mset:
  "mset xs = mset ys \<Longrightarrow> length (filter P xs) = length (filter P ys)"
  by (metis mset_filter size_mset)

lemma median_cases:
  "(dropna s = [] \<longrightarrow> median s = NaN) \<and>
   (odd (length (dropna s)) \<longrightarrow>
      median s = Num (sort (dropna s) ! (length (dropna s) div 2))) \<and>
   (dropna s \<noteq> [] \<and> even (length (dropna s)) \<longrightarrow>
      median s = Num ((sort (dropna s) ! (length (dropna s) div 2 - 1) +
                       sort (dropna s) ! (length (dropna s) div 2)) / 2))"
  by (auto simp: median_def Let_def sort_Nil_iff)

lemma median_halves:
  assumes "median s = Num m"
  shows "length (dropna s) \<le> 2 * length (filter (\<lambda>x. x \<le> m) (dropna s)) \<and>
         length (dropna s) \<le> 2 * length (filter (\<lambda>x. m \<le> x) (dropna s))"
proof -
  let ?ys = "dropna s"
  let ?xs = "sort ?ys"
  let ?n = "length ?ys"
  have srt: "sorted ?xs" and len: "length ?xs = ?n" and ms: "mset ?xs = mset ?ys" by simp_all
  from assms have ne: "?ys \<noteq> []" using median_cases [of s] by auto
  then have pos: "0 < ?n" by simp
  have le: "length (filter (\<lambda>x. x \<le> m) ?ys) = length (filter (\<lambda>x. x \<le> m) ?xs)"
    and ge: "length (filter (\<lambda>x. m \<le> x) ?ys) = length (filter (\<lambda>x. m \<le> x) ?xs)"
    using ms by (auto intro: length_filter_mset [symmetric])
  show ?thesis
  proof (cases "odd ?n")
    case True
    with assms have m: "m = ?xs ! (?n div 2)" using median_cases [of s] by simp
    have i: "?n div 2 < length ?xs" using pos len by simp
    from count_le_sorted [OF srt i, of m] m
    have "Suc (?n div 2) \<le> length (filter (\<lambda>x. x \<le> m) ?xs)" by simp
    moreover from count_ge_sorted [OF srt i, of m] m len
    have "?n - ?n div 2 \<le> length (filter (\<lambda>x. m \<le> x) ?xs)" by simp
    ultimately show ?thesis using le ge by linarith
  next
    case False
    with assms ne have m: "m = (?xs ! (?n div 2 - 1) + ?xs ! (?n div 2)) / 2"
      using median_cases [of s] by simp
    from False pos have k: "0 < ?n div 2" by presburger
    have i: "?n div 2 < length ?xs" using pos len by simp
    then have i1: "?n div 2 - 1 < length ?xs" by linarith
    have "?xs ! (?n div 2 - 1) \<le> ?xs ! (?n div 2)"
      using srt i by (simp add: sorted_nth_mono)
    with m have lo: "?xs ! (?n div 2 - 1) \<le> m" and hi: "m \<le> ?xs ! (?n div 2)" by simp_all
    from count_le_sorted [OF srt i1 lo] k
    have "?n div 2 \<le> length (filter (\<lambda>x. x \<le> m) ?xs)" by simp
    moreover from count_ge_sorted [OF srt i hi] len
    have "?n - ?n div 2 \<le> length (filter (\<lambda>x. m \<le> x) ?xs)" by simp
    ultimately show ?thesis using le ge False by presburger
  qed
qed

subsection \<open>The filled column\<close>

text \<open>
  Claim C3. After the first loop each listed column is the column of the input table with
  every missing value replaced by one value, taken from that input column before any
  replacement: the median of its values that are not missing. With these values in
  ascending order it is the middle one when their number is odd and the mean of the two
  middle ones when it is even, so at least half of them are not above it and at least
  half are not below it. On the column 10, NaN, 20, NaN, 30 both gaps become 20.
\<close>

theorem impute_loop_prefill_median:
  assumes "impute_loop cols df = Inr df1" and "col \<in> set cols"
  shows "\<exists>s xs. numeric df col = Some s \<and>
    numeric df1 col = Some (map (\<lambda>v. if v = NaN then median s else v) s) \<and>
    sorted xs \<and> mset xs = mset (dropna s) \<and>
    (xs = [] \<longrightarrow> median s = NaN) \<and>
    (odd (length xs) \<longrightarrow> median s = Num (xs ! (length xs div 2))) \<and>
    (xs \<noteq> [] \<and> even (length xs) \<longrightarrow>
       median s = Num ((xs ! (length xs div 2 - 1) + xs ! (length xs div 2)) / 2)) \<and>
    (\<forall>m. median s = Num m \<longrightarrow>
       length (dropna s) \<le> 2 * length (filter (\<lambda>x. x \<le> m) (dropna s)) \<and>
       length (dropna s) \<le> 2 * length (filter (\<lambda>x. m \<le> x) (dropna s)))"
proof -
  have d: "set cols \<subseteq> dom (numeric df)" using assms(1) by (rule impute_loop_dom)
  with assms(2) obtain s where s: "numeric df col = Some s" by auto
  from d assms(1) have "df1 = on_cols fill_median (set cols) df"
    by (simp add: impute_loop_closed)
  then have "numeric df1 col = Some (fill_median s)"
    using s assms(2) by (simp add: numeric_on_cols)
  then have f: "numeric df1 col = Some (map (\<lambda>v. if v = NaN then median s else v) s)"
    by (simp add: fill_median_def fillna_eq_map)
  let ?xs = "sort (dropna s)"
  have x: "sorted ?xs" "mset ?xs = mset (dropna s)" by simp_all
  have c: "(?xs = [] \<longrightarrow> median s = NaN) \<and>
    (odd (length ?xs) \<longrightarrow> median s = Num (?xs ! (length ?xs div 2))) \<and>
    (?xs \<noteq> [] \<and> even (length ?xs) \<longrightarrow>
       median s = Num ((?xs ! (length ?xs div 2 - 1) + ?xs ! (length ?xs div 2)) / 2))"
    using median_cases [of s] by (simp add: sort_Nil_iff)
  from s f x c median_halves [of s] show ?thesis by blast
qed

theorem impute_loop_prefill_median_witness:
  "\<exists>df1. impute_loop target_cols example_df = Inr df1 \<and>
     numeric example_df ''PM2.5'' = Some [Num 10, NaN, Num 20, NaN, Num 30] \<and>
     median [Num 10, NaN, Num 20, NaN, Num 30] = Num 20 \<and>
     numeric df1 ''PM2.5'' = Some [Num 10, Num 20, Num 20, Num 20, Num 30] \<and>
     numeric example_df ''Temperature'' = Some [Num (-5), Num 0, Num 5, NaN, Num (-1)] \<and>
     median [Num (-5), Num 0, Num 5, NaN, Num (-1)] = Num (-1/2) \<and>
     numeric df1 ''Temperature'' = Some [Num (-5), Num 0, Num 5, Num (-1/2), Num (-1)]"
proof -
  let ?df1 = "on_cols fill_median (set target_cols) example_df"
  have e: "impute_loop target_cols example_df = Inr ?df1"
    using example_df_dom by (rule impute_loop_closed)
  have c: "''PM2.5'' \<in> set target_cols" "''Temperature'' \<in> set target_cols"
    by (simp_all add: target_cols_def)
  have s: "numeric example_df ''PM2.5'' = Some [Num 10, NaN, Num 20, NaN, Num 30]"
    and t: "numeric example_df ''Temperature'' = Some [Num (-5), Num 0, Num 5, NaN, Num (-1)]"
    by (simp_all add: example_df_def)
  have m: "median [Num 10, NaN, Num 20, NaN, Num 30] = Num 20"
    and n: "median [Num (-5), Num 0, Num 5, NaN, Num (-1)] = Num (-1/2)"
    by (simp_all add: median_def)
  from impute_loop_prefill_median [OF e c(1)] s m
  have 1: "numeric ?df1 ''PM2.5'' = Some [Num 10, Num 20, Num 20, Num 20, Num 30]"
    by auto
  from impute_loop_prefill_median [OF e c(2)] t n
  have 2: "numeric ?df1 ''Temperature'' = Some [Num (-5), Num 0, Num 5, Num (-1/2), Num (-1)]"
    by auto
  from e s m 1 t n 2 show ?thesis by blast
qed

text \<open>
  Claim C9. The cleaned table does not depend on the order in which the columns are
  processed: when the step succeeds for one order of the names, it returns the same table
  for every permutation of the names of either loop.
\<close>

theorem clean_cols_permutation:
  assumes "mset cols1' = mset cols1" "mset cols2' = mset cols2"
    and "clean_cols cols1 cols2 df = Inr df'"
  shows "clean_cols cols1' cols2' df = Inr df'"
proof -
  have s: "set cols1' = set cols1" "set cols2' = set cols2"
    using assms(1,2) by (auto dest: mset_eq_setD)
  have d: "set cols1 \<union> set cols2 \<subseteq> dom (numeric df)" using assms(3) by (rule clean_cols_dom)
  then have "set cols1' \<union> set cols2' \<subseteq> dom (numeric df)" using s by simp
  then show ?thesis using assms(3) d s by (simp add: clean_cols_closed)
qed

theorem clean_cols_permutation_witness:
  "mset (rev target_cols) = mset target_cols \<and>
   mset [''O3'', ''PM10'', ''Humidity'', ''PM2.5'', ''Temperature'', ''NO2''] = mset target_cols \<and>
   (\<exists>df'. cleaner example_df = Inr df' \<and>
      clean_cols (rev target_cols)
        [''O3'', ''PM10'', ''Humidity'', ''PM2.5'', ''Temperature'', ''NO2''] example_df = Inr df')"
proof -
  have p1: "mset (rev target_cols) = mset target_cols" by simp
  have p2: "mset [''O3'', ''PM10'', ''Humidity'', ''PM2.5'', ''Temperature'', ''NO2''] =
      mset target_cols"
    by (simp add: target_cols_def)
  from example_df_dom obtain df' where c: "clean_cols target_cols target_cols example_df = Inr df'"
    by (simp add: clean_cols_closed)
  from clean_cols_permutation [OF p1 p2 c] c p1 p2 show ?thesis
    by (simp add: cleaner_def)
qed

text \<open>
  Claim C10. A value of a target column is still missing after the first loop exactly
  when the column has rows and none of them holds a number; the second loop turns each
  such value into 0, so a column without observations becomes all zeros, and the cleaning
  step returns a table without an error.
\<close>

theorem cleaner_all_missing_column:
  assumes "set target_cols \<subseteq> dom (numeric df)" and "col \<in> set target_cols"
    and "numeric df col = Some s"
  shows "\<exists>df1 df' s1 s'. impute_loop target_cols df = Inr df1 \<and>
      clamp_loop target_cols df1 = Inr df' \<and> cleaner df = Inr df' \<and>
      numeric df1 col = Some s1 \<and> numeric df' col = Some s' \<and>
      length s1 = length s \<and> length s' = length s \<and>
      (NaN \<in> set s1 \<longleftrightarrow> s \<noteq> [] \<and> dropna s = []) \<and>
      (\<forall>i < length s. s1 ! i = NaN \<longrightarrow> s' ! i = Num 0) \<and>
      (dropna s = [] \<longrightarrow> s' = replicate (length s) (Num 0))"
proof -
  let ?df1 = "on_cols fill_median (set target_cols) df"
  let ?df' = "on_cols (map (py_max 0)) (set target_cols) ?df1"
  have 1: "impute_loop target_cols df = Inr ?df1"
    using assms(1) by (rule impute_loop_closed)
  have 2: "clamp_loop target_cols ?df1 = Inr ?df'"
    using assms(1) by (simp add: clamp_loop_closed dom_on_cols)
  have 3: "cleaner df = Inr ?df'"
    using 1 2 by (simp add: cleaner_def clean_cols_def)
  have 4: "numeric ?df1 col = Some (fill_median s)"
    using assms(2,3) by (simp add: numeric_on_cols)
  have 5: "numeric ?df' col = Some (map (py_max 0) (fill_median s))"
    using assms(2,3) by (simp add: numeric_on_cols)
  have 6: "length (fill_median s) = length s"
    by (simp add: fill_median_def fillna_def)
  have 7: "\<forall>i < length s. fill_median s ! i = NaN \<longrightarrow> map (py_max 0) (fill_median s) ! i = Num 0"
    using 6 by (simp add: py_max_def)
  have 8: "map (py_max 0) (fill_median s) = replicate (length s) (Num 0)" if "dropna s = []"
  proof -
    from that have "median s = NaN" by (simp add: median_NaN_iff)
    then have "fill_median s = s" by (simp add: fill_median_def fillna_NaN)
    moreover from that have "\<forall>v \<in> set s. v = NaN" by (simp add: dropna_empty_iff)
    then have "map (py_max 0) s = replicate (length s) (Num 0)"
      by (induction s) (simp_all add: py_max_def)
    ultimately show ?thesis by simp
  qed
  from 1 2 3 4 5 6 7 8 NaN_in_fill_median [of s] show ?thesis
    by (intro exI [of _ ?df1] exI [of _ ?df'] exI [of _ "fill_median s"]
        exI [of _ "map (py_max 0) (fill_median s)"]) simp
qed

theorem cleaner_all_missing_column_witness:
  "\<exists>df'. cleaner example_df = Inr df' \<and>
     numeric example_df ''O3'' = Some [NaN, NaN, NaN, NaN, NaN] \<and>
     numeric df' ''O3'' = Some [Num 0, Num 0, Num 0, Num 0, Num 0]"
proof -
  have c: "''O3'' \<in> set target_cols" by (simp add: target_cols_def)
  have s: "numeric example_df ''O3'' = Some [NaN, NaN, NaN, NaN, NaN]"
    by (simp add: example_df_def)
  from cleaner_all_missing_column [OF example_df_dom c s] obtain df' s'
    where "cleaner example_df = Inr df'" "numeric df' ''O3'' = Some s'"
      "dropna [NaN, NaN, NaN, NaN, NaN] = [] \<longrightarrow> s' = replicate (length [NaN, NaN, NaN, NaN, NaN]) (Num 0)"
    by blast
  then show ?thesis using s by (auto simp: numeral_eq_Suc)
qed

section \<open>Properties of the analysis steps\<close>

subsection \<open>Days above the threshold\<close>

lemma two_day_daily: "daily_avg_pm25_s003 two_day_df = Inr [(0, Num 55), (1, Num 48)]"
  by (simp add: daily_avg_pm25_s003_def two_day_df_def getitem_def specific_station_id_def
      groupby_mean_def mean_def date_def)

text \<open>
  Claim C7. When the rows of S003 give the daily PM2.5 means 55 and 48 on two days, the
  selection of the days above the threshold 50 holds one entry: the first day, with 55.
\<close>

theorem days_exceeding_threshold_two_days:
  assumes "daily_avg_pm25_s003 df = Inr [(day1, Num 55), (day2, Num 48)]"
  shows "days_exceeding_threshold df = Inr [(day1, Num 55)]"
  using assms by (simp add: days_exceeding_threshold_def threshold_def)

theorem days_exceeding_threshold_two_days_witness:
  "daily_avg_pm25_s003 two_day_df = Inr [(0, Num 55), (1, Num 48)] \<and>
   days_exceeding_threshold two_day_df = Inr [(0, Num 55)]"
  using days_exceeding_threshold_two_days [OF two_day_daily] two_day_daily by simp

subsection \<open>Queries over no rows\<close>

lemma zip3_pair: "(a, b, c) \<in> set (zip xs (zip ys zs)) \<Longrightarrow> (a, b) \<in> set (zip xs ys)"
  by (auto simp: in_set_zip)

lemma filter_zip3_empty:
  assumes "filter (\<lambda>(st, ts). P st ts) (zip xs ys) = []"
  shows "filter (\<lambda>(st, ts, v). P st ts) (zip xs (zip ys zs)) = []"
proof -
  have "\<not> P a b" if "(a, b, c) \<in> set (zip xs (zip ys zs))" for a b c
    using zip3_pair [OF that] assms by (auto simp: filter_empty_conv)
  then show ?thesis by (auto simp: filter_empty_conv)
qed

text \<open>
  Claim C8, as stated, fails: on a table without rows of S001 the hourly series is empty
  and the peak hour is not a result but the ValueError of \<^verbatim>\<open>idxmax\<close>.
\<close>

theorem peak_hour_raises_counterexample:
  "hourly_pm25_s001 no_s001_df = Inr [] \<and> peak_hour_pm25 no_s001_df = Inl ValueError"
  by (simp add: peak_hour_pm25_def hourly_pm25_s001_def no_s001_df_def getitem_def
      resample_H_mean_def idxmax_def)

text \<open>
  Claim C8, amended. Over zero matching rows the grouped means (per station, per day) and
  the hourly resampling return the empty series without an error, and so does the
  selection of the days above the threshold; the extreme label of such an empty series
  (\<^verbatim>\<open>idxmax\<close> for the peak hour and the station with the highest mean,
  \<^verbatim>\<open>idxmin\<close> for the station with the lowest) is a ValueError, and the line after it
  is not reached. No row matches the hourly query also when the station has rows, none
  of them on the first day.
\<close>

theorem empty_selection_queries:
  assumes "numeric df ''PM2.5'' = Some s" and "numeric df ''O3'' = Some o3"
  shows
    "(filter (\<lambda>(st, ts). st = ''S001'' \<and> Some (date ts) = first_date df)
        (zip (Station_ID df) (Timestamp df)) = [] \<longrightarrow>
        hourly_pm25_s001 df = Inr [] \<and> peak_hour_pm25 df = Inl ValueError \<and>
        peak_pm25_value df = Inl ValueError) \<and>
     (filter (\<lambda>(st, ts). st = specific_station_id) (zip (Station_ID df) (Timestamp df)) = [] \<longrightarrow>
        daily_avg_pm25_s003 df = Inr [] \<and> days_exceeding_threshold df = Inr []) \<and>
     (Station_ID df = [] \<longrightarrow>
        avg_pm25_by_station df = Inr [] \<and> highest_pm25_station df = Inl ValueError \<and>
        highest_pm25_value df = Inl ValueError \<and>
        avg_o3_by_station df = Inr [] \<and> lowest_o3_station df = Inl ValueError \<and>
        lowest_o3_value df = Inl ValueError)"
proof -
  have 1: "hourly_pm25_s001 df = Inr []"
    if "filter (\<lambda>(st, ts). st = ''S001'' \<and> Some (date ts) = first_date df)
        (zip (Station_ID df) (Timestamp df)) = []"
  proof -
    from that have "filter (\<lambda>(st, ts, v). st = ''S001'' \<and> Some (date ts) = first_date df)
        (zip (Station_ID df) (zip (Timestamp df) s)) = []"
      by (rule filter_zip3_empty)
    then show ?thesis using assms(1)
      by (simp add: hourly_pm25_s001_def getitem_def resample_H_mean_def)
  qed
  have 2: "daily_avg_pm25_s003 df = Inr []"
    if "filter (\<lambda>(st, ts). st = specific_station_id) (zip (Station_ID df) (Timestamp df)) = []"
  proof -
    from that have "filter (\<lambda>(st, ts, v). st = specific_station_id)
        (zip (Station_ID df) (zip (Timestamp df) s)) = []"
      by (rule filter_zip3_empty)
    then show ?thesis using assms(1)
      by (simp add: daily_avg_pm25_s003_def getitem_def groupby_mean_def)
  qed
  have 3: "avg_pm25_by_station df = Inr []" "avg_o3_by_station df = Inr []"
    if "Station_ID df = []"
    using that assms
    by (simp_all add: avg_pm25_by_station_def avg_o3_by_station_def getitem_def groupby_mean_def)
  show ?thesis using 1 2 3
    by (auto simp: peak_hour_pm25_def peak_pm25_value_def days_exceeding_threshold_def
        highest_pm25_station_def highest_pm25_value_def lowest_o3_station_def
        lowest_o3_value_def idxmax_def idxmin_def)
qed

theorem empty_selection_queries_witness:
  "''S001'' \<in> set (Station_ID off_day_df) \<and>
   filter (\<lambda>(st, ts). st = ''S001'' \<and> Some (date ts) = first_date off_day_df)
     (zip (Station_ID off_day_df) (Timestamp off_day_df)) = [] \<and>
   filter (\<lambda>(st, ts). st = specific_station_id)
     (zip (Station_ID off_day_df) (Timestamp off_day_df)) = [] \<and>
   hourly_pm25_s001 off_day_df = Inr [] \<and> peak_hour_pm25 off_day_df = Inl ValueError \<and>
   daily_avg_pm25_s003 off_day_df = Inr [] \<and> days_exceeding_threshold off_day_df = Inr [] \<and>
   Station_ID empty_df = [] \<and>
   avg_pm25_by_station empty_df = Inr [] \<and> highest_pm25_station empty_df = Inl ValueError \<and>
   avg_o3_by_station empty_df = Inr [] \<and> lowest_o3_station empty_df = Inl ValueError"
proof -
  have a: "numeric off_day_df ''PM2.5'' = Some [Num 10, Num 50]"
    "numeric off_day_df ''O3'' = Some [Num 1, Num 2]"
    by (simp_all add: off_day_df_def)
  have b: "''S001'' \<in> set (Station_ID off_day_df)"
    "filter (\<lambda>(st, ts). st = ''S001'' \<and> Some (date ts) = first_date off_day_df)
       (zip (Station_ID off_day_df) (Timestamp off_day_df)) = []"
    "filter (\<lambda>(st, ts). st = specific_station_id)
       (zip (Station_ID off_day_df) (Timestamp off_day_df)) = []"
    by (simp_all add: off_day_df_def specific_station_id_def first_date_def date_def)
  have c: "numeric empty_df ''PM2.5'' = Some []" "numeric empty_df ''O3'' = Some []"
    "Station_ID empty_df = []"
    by (simp_all add: empty_df_def)
  from empty_selection_queries [OF a] empty_selection_queries [OF c(1,2)] b c(3)
  show ?thesis by simp
qed

subsection \<open>Extremes of grouped means\<close>

lemma first_max_mem: "first_max best s \<in> set (best # s)"
  by (induction s arbitrary: best) (auto split: if_splits)

lemma first_max_ge: "kx \<in> set (best # s) \<Longrightarrow> snd kx \<le> snd (first_max best s)"
proof (induction s arbitrary: best kx)
  case Nil
  then show ?case by simp
next
  case (Cons a s)
  let ?b = "if snd a > snd best then a else best"
  have b: "snd best \<le> snd ?b" "snd a \<le> snd ?b" by auto
  have "snd ?b \<le> snd (first_max ?b s)" by (rule Cons.IH) simp
  with b have "snd best \<le> snd (first_max ?b s)" "snd a \<le> snd (first_max ?b s)" by linarith+
  moreover have "snd kx \<le> snd (first_max ?b s)" if "kx \<in> set s"
    using that by (intro Cons.IH) simp
  ultimately show ?case using Cons.prems by auto
qed

lemma first_max_first:
  "sorted (map fst (best # s)) \<Longrightarrow> kx \<in> set (best # s) \<Longrightarrow>
   snd kx = snd (first_max best s) \<Longrightarrow> fst (first_max best s) \<le> fst kx"
proof (induction s arbitrary: best kx)
  case Nil
  then show ?case by simp
next
  case (Cons a s)
  show ?case
  proof (cases "snd a > snd best")
    case True
    then have r: "first_max best (a # s) = first_max a s" by simp
    have "snd a \<le> snd (first_max a s)" by (rule first_max_ge) simp
    with True Cons.prems(3) r have "kx \<noteq> best" by auto
    with Cons.prems(2) have "kx \<in> set (a # s)" by auto
    moreover have "sorted (map fst (a # s))" using Cons.prems(1) by simp
    ultimately show ?thesis using Cons.IH [of a kx] Cons.prems(3) r by simp
  next
    case False
    then have r: "first_max best (a # s) = first_max best s" by simp
    have srt: "sorted (map fst (best # s))" using Cons.prems(1) by auto
    have ge: "snd best \<le> snd (first_max best s)" by (rule first_max_ge) simp
    show ?thesis
    proof (cases "kx = a")
      case True
      with Cons.prems(3) r False ge have "snd best = snd (first_max best s)" by simp
      with srt have "fst (first_max best s) \<le> fst best" by (intro Cons.IH) simp_all
      moreover have "fst best \<le> fst a" using Cons.prems(1) by simp
      ultimately show ?thesis using r True by simp
    next
      case False
      with Cons.prems(2) have "kx \<in> set (best # s)" by auto
      with srt Cons.prems(3) r show ?thesis using Cons.IH [of best kx] by simp
    qed
  qed
qed

lemma first_min_mem: "first_min best s \<in> set (best # s)"
  by (induction s arbitrary: best) (auto split: if_splits)

lemma first_min_le: "kx \<in> set (best # s) \<Longrightarrow> snd (first_min best s) \<le> snd kx"
proof (induction s arbitrary: best kx)
  case Nil
  then show ?case by simp
next
  case (Cons a s)
  let ?b = "if snd a < snd best then a else best"
  have b: "snd ?b \<le> snd best" "snd ?b \<le> snd a" by auto
  have "snd (first_min ?b s) \<le> snd ?b" by (rule Cons.IH) simp
  with b have "snd (first_min ?b s) \<le> snd best" "snd (first_min ?b s) \<le> snd a" by linarith+
  moreover have "snd (first_min ?b s) \<le> snd kx" if "kx \<in> set s"
    using that by (intro Cons.IH) simp
  ultimately show ?case using Cons.prems by auto
qed

lemma first_min_first:
  "sorted (map fst (best # s)) \<Longrightarrow> kx \<in> set (best # s) \<Longrightarrow>
   snd kx = snd (first_min best s) \<Longrightarrow> fst (first_min best s) \<le> fst kx"
proof (induction s arbitrary: best kx)
  case Nil
  then show ?case by simp
next
  case (Cons a s)
  show ?case
  proof (cases "snd a < snd best")
    case True
    then have r: "first_min best (a # s) = first_min a s" by simp
    have "snd (first_min a s) \<le> snd a" by (rule first_min_le) simp
    with True Cons.prems(3) r have "kx \<noteq> best" by auto
    with Cons.prems(2) have "kx \<in> set (a # s)" by auto
    moreover have "sorted (map fst (a # s))" using Cons.prems(1) by simp
    ultimately show ?thesis using Cons.IH [of a kx] Cons.prems(3) r by simp
  next
    case False
    then have r: "first_min best (a # s) = first_min best s" by simp
    have srt: "sorted (map fst (best # s))" using Cons.prems(1) by auto
    have ge: "snd (first_min best s) \<le> snd best" by (rule first_min_le) simp
    show ?thesis
    proof (cases "kx = a")
      case True
      with Cons.prems(3) r False ge have "snd best = snd (first_min best s)" by simp
      with srt have "fst (first_min best s) \<le> fst best" by (intro Cons.IH) simp_all
      moreover have "fst best \<le> fst a" using Cons.prems(1) by simp
      ultimately show ?thesis using r True by simp
    next
      case False
      with Cons.prems(2) have "kx \<in> set (best # s)" by auto
      with srt Cons.prems(3) r show ?thesis using Cons.IH [of best kx] by simp
    qed
  qed
qed

lemma present_iff: "(k, x) \<in> set (present s) \<longleftrightarrow> (k, Num x) \<in> set s"
  by (induction s rule: present.induct) auto

lemma sorted_present: "sorted (map fst s) \<Longrightarrow> sorted (map fst (present s))"
proof (induction s rule: present.induct)
  case 1
  show ?case by simp
next
  case (2 k s)
  then show ?case by simp
next
  case (3 k x s)
  have sub: "fst ` set (present s) \<subseteq> fst ` set s"
    using present_iff [of _ _ s] by force
  from 3 have a: "sorted (map fst (present s))" and b: "\<forall>y \<in> set s. k \<le> fst y" by auto
  from b sub have "\<forall>y \<in> set (present s). k \<le> fst y" by force
  with a show ?case by simp
qed

lemma groupby_mean_keys: "map fst (groupby_mean keys vals) = sort (remdups keys)"
  by (simp add: groupby_mean_def comp_def)

lemma sorted_groupby_mean: "sorted (map fst (groupby_mean keys vals))"
  by (simp add: groupby_mean_keys)

lemma idxmax_first:
  assumes "sorted (map fst s)" "idxmax s = Inr (Some k)"
  shows "\<exists>m. smax s = Num m \<and> (k, Num m) \<in> set s \<and>
    (\<forall>k' x. (k', Num x) \<in> set s \<longrightarrow> x \<le> m \<and> (x = m \<longrightarrow> k \<le> k'))"
proof -
  from assms(2) obtain kx rest where p: "present s = kx # rest" and k: "k = fst (first_max kx rest)"
    by (auto simp: idxmax_def split: if_splits list.splits)
  let ?r = "first_max kx rest"
  have srt: "sorted (map fst (kx # rest))" using sorted_present [OF assms(1)] p by simp
  have m: "smax s = Num (snd ?r)" using p by (simp add: smax_def)
  have "?r \<in> set (present s)" using first_max_mem [of kx rest] p by simp
  then have mem: "(k, Num (snd ?r)) \<in> set s" using present_iff [of k "snd ?r" s] k by simp
  have "x \<le> snd ?r \<and> (x = snd ?r \<longrightarrow> k \<le> k')" if "(k', Num x) \<in> set s" for k' x
  proof -
    from that have i: "(k', x) \<in> set (kx # rest)" using present_iff [of k' x s] p by simp
    from first_max_ge [OF i] first_max_first [OF srt i] k show ?thesis by simp
  qed
  with m mem show ?thesis by blast
qed

lemma idxmin_first:
  assumes "sorted (map fst s)" "idxmin s = Inr (Some k)"
  shows "\<exists>m. smin s = Num m \<and> (k, Num m) \<in> set s \<and>
    (\<forall>k' x. (k', Num x) \<in> set s \<longrightarrow> m \<le> x \<and> (x = m \<longrightarrow> k \<le> k'))"
proof -
  from assms(2) obtain kx rest where p: "present s = kx # rest" and k: "k = fst (first_min kx rest)"
    by (auto simp: idxmin_def split: if_splits list.splits)
  let ?r = "first_min kx rest"
  have srt: "sorted (map fst (kx # rest))" using sorted_present [OF assms(1)] p by simp
  have m: "smin s = Num (snd ?r)" using p by (simp add: smin_def)
  have "?r \<in> set (present s)" using first_min_mem [of kx rest] p by simp
  then have mem: "(k, Num (snd ?r)) \<in> set s" using present_iff [of k "snd ?r" s] k by simp
  have "snd ?r \<le> x \<and> (x = snd ?r \<longrightarrow> k \<le> k')" if "(k', Num x) \<in> set s" for k' x
  proof -
    from that have i: "(k', x) \<in> set (kx # rest)" using present_iff [of k' x s] p by simp
    from first_min_le [OF i] first_min_first [OF srt i] k show ?thesis by simp
  qed
  with m mem show ?thesis by blast
qed

lemma dropna_no_NaN: "NaN \<notin> set s \<Longrightarrow> length (dropna s) = length s"
  by (induction s rule: dropna.induct) simp_all

lemma mean_Num: "s \<noteq> [] \<Longrightarrow> NaN \<notin> set s \<Longrightarrow> \<exists>x. mean s = Num x"
  using dropna_no_NaN [of s] by (auto simp: mean_def Let_def)

lemma group_rows_nonempty:
  assumes "k \<in> set keys" "length vals = length keys"
  shows "filter (\<lambda>(k', v). k' = k) (zip keys vals) \<noteq> []"
proof -
  from assms(1) obtain i where i: "i < length keys" "keys ! i = k"
    by (auto simp: in_set_conv_nth)
  with assms(2) have "(k, vals ! i) \<in> set (zip keys vals)"
    by (auto simp: in_set_zip)
  then show ?thesis by (auto simp: filter_empty_conv)
qed

lemma groupby_mean_all_Num:
  assumes "length vals = length keys" "NaN \<notin> set vals" "kv \<in> set (groupby_mean keys vals)"
  shows "\<exists>x. snd kv = Num x"
proof -
  from assms(3) obtain k where k: "k \<in> set keys"
    and kv: "kv = (k, mean (map snd (filter (\<lambda>(k', v). k' = k) (zip keys vals))))"
    by (auto simp: groupby_mean_def)
  let ?rows = "filter (\<lambda>(k', v). k' = k) (zip keys vals)"
  have "map snd ?rows \<noteq> []" using group_rows_nonempty [OF k assms(1)] by simp
  moreover have "NaN \<notin> set (map snd ?rows)" using assms(2) by (auto dest: set_zip_rightD)
  ultimately show ?thesis using kv mean_Num by auto
qed

lemma present_nonempty: "s \<noteq> [] \<Longrightarrow> \<forall>kv \<in> set s. \<exists>x. snd kv = Num x \<Longrightarrow> present s \<noteq> []"
  by (cases s rule: present.cases) auto

lemma groupby_mean_present:
  assumes "keys \<noteq> []" "length vals = length keys" "NaN \<notin> set vals"
  shows "groupby_mean keys vals \<noteq> [] \<and> present (groupby_mean keys vals) \<noteq> []"
proof -
  have n: "groupby_mean keys vals \<noteq> []"
    using assms(1) by (simp add: groupby_mean_def sort_Nil_iff)
  moreover have "\<forall>kv \<in> set (groupby_mean keys vals). \<exists>x. snd kv = Num x"
    using groupby_mean_all_Num [OF assms(2,3)] by blast
  ultimately show ?thesis using present_nonempty by blast
qed

text \<open>
  Claim C6. In a series of grouped means the label returned by \<^verbatim>\<open>idxmax\<close> carries
  the greatest mean, the value \<^verbatim>\<open>max\<close> returns, and is the least key among the
  groups that attain it; \<^verbatim>\<open>idxmin\<close> and \<^verbatim>\<open>min\<close> likewise for the least mean.
  Both labels exist when the table has rows and the column has no missing value. For the
  groups A: 10, 20 and B: 30 the means are 15 and 30, the label is B and the value 30.
\<close>

theorem groupby_extreme_first_in_key_order:
  fixes keys :: "'k::linorder list"
  shows
    "(idxmax (groupby_mean keys vals) = Inr (Some k) \<longrightarrow>
        (\<exists>m. smax (groupby_mean keys vals) = Num m \<and> (k, Num m) \<in> set (groupby_mean keys vals) \<and>
           (\<forall>k' x. (k', Num x) \<in> set (groupby_mean keys vals) \<longrightarrow> x \<le> m \<and> (x = m \<longrightarrow> k \<le> k')))) \<and>
     (idxmin (groupby_mean keys vals) = Inr (Some j) \<longrightarrow>
        (\<exists>m. smin (groupby_mean keys vals) = Num m \<and> (j, Num m) \<in> set (groupby_mean keys vals) \<and>
           (\<forall>k' x. (k', Num x) \<in> set (groupby_mean keys vals) \<longrightarrow> m \<le> x \<and> (x = m \<longrightarrow> j \<le> k')))) \<and>
     (keys \<noteq> [] \<and> length vals = length keys \<and> NaN \<notin> set vals \<longrightarrow>
        (\<exists>k j. idxmax (groupby_mean keys vals) = Inr (Some k) \<and>
               idxmin (groupby_mean keys vals) = Inr (Some j)))"
proof (intro conjI impI)
  assume "idxmax (groupby_mean keys vals) = Inr (Some k)"
  with sorted_groupby_mean
  show "\<exists>m. smax (groupby_mean keys vals) = Num m \<and> (k, Num m) \<in> set (groupby_mean keys vals) \<and>
           (\<forall>k' x. (k', Num x) \<in> set (groupby_mean keys vals) \<longrightarrow> x \<le> m \<and> (x = m \<longrightarrow> k \<le> k'))"
    by (rule idxmax_first)
next
  assume "idxmin (groupby_mean keys vals) = Inr (Some j)"
  with sorted_groupby_mean
  show "\<exists>m. smin (groupby_mean keys vals) = Num m \<and> (j, Num m) \<in> set (groupby_mean keys vals) \<and>
           (\<forall>k' x. (k', Num x) \<in> set (groupby_mean keys vals) \<longrightarrow> m \<le> x \<and> (x = m \<longrightarrow> j \<le> k'))"
    by (rule idxmin_first)
next
  assume "keys \<noteq> [] \<and> length vals = length keys \<and> NaN \<notin> set vals"
  then have "groupby_mean keys vals \<noteq> [] \<and> present (groupby_mean keys vals) \<noteq> []"
    by (intro groupby_mean_present) simp_all
  then show "\<exists>k j. idxmax (groupby_mean keys vals) = Inr (Some k) \<and>
               idxmin (groupby_mean keys vals) = Inr (Some j)"
    by (auto simp: idxmax_def idxmin_def split: list.splits)
qed

lemma groupby_mean_AB:
  "groupby_mean [''A'', ''A'', ''B''] [Num 10, Num 20, Num 30] = [(''A'', Num 15), (''B'', Num 30)]"
  by (simp add: groupby_mean_def mean_def)

lemma groupby_mean_tie:
  "groupby_mean [''C'', ''B'', ''A'', ''B''] [Num 30, Num 40, Num 30, Num 20] =
     [(''A'', Num 30), (''B'', Num 30), (''C'', Num 30)]"
  by (simp add: groupby_mean_def mean_def)

theorem groupby_extreme_first_in_key_order_witness:
  "groupby_mean [''A'', ''A'', ''B''] [Num 10, Num 20, Num 30] = [(''A'', Num 15), (''B'', Num 30)] \<and>
   idxmax (groupby_mean [''A'', ''A'', ''B''] [Num 10, Num 20, Num 30]) = Inr (Some ''B'') \<and>
   smax (groupby_mean [''A'', ''A'', ''B''] [Num 10, Num 20, Num 30]) = Num 30 \<and>
   idxmax (groupby_mean [''C'', ''B'', ''A'', ''B''] [Num 30, Num 40, Num 30, Num 20]) = Inr (Some ''A'') \<and>
   idxmin (groupby_mean [''C'', ''B'', ''A'', ''B''] [Num 30, Num 40, Num 30, Num 20]) = Inr (Some ''A'') \<and>
   ''A'' \<le> ''B'' \<and> ''A'' \<le> ''C''"
proof -
  let ?s = "groupby_mean [''A'', ''A'', ''B''] [Num 10, Num 20, Num 30]"
  let ?t = "groupby_mean [''C'', ''B'', ''A'', ''B''] [Num 30, Num 40, Num 30, Num 20]"
  have 1: "idxmax ?s = Inr (Some ''B'')" by (simp add: groupby_mean_AB idxmax_def)
  have 2: "idxmax ?t = Inr (Some ''A'')" by (simp add: groupby_mean_tie idxmax_def)
  have 3: "idxmin ?t = Inr (Some ''A'')" by (simp add: groupby_mean_tie idxmin_def)
  from groupby_extreme_first_in_key_order [of "[''A'', ''A'', ''B'']" "[Num 10, Num 20, Num 30]" "''B''"] 1
  obtain m where m: "smax ?s = Num m" "(''B'', Num m) \<in> set ?s" by blast
  then have "m = 30" by (simp add: groupby_mean_AB)
  with m have 4: "smax ?s = Num 30" by simp
  from groupby_extreme_first_in_key_order
    [of "[''C'', ''B'', ''A'', ''B'']" "[Num 30, Num 40, Num 30, Num 20]" "''A''" "''A''"] 2
  obtain m' where "smax ?t = Num m'" "(''A'', Num m') \<in> set ?t"
      "\<forall>k' x. (k', Num x) \<in> set ?t \<longrightarrow> x \<le> m' \<and> (x = m' \<longrightarrow> ''A'' \<le> k')"
    by blast
  then have "''A'' \<le> ''B'' \<and> ''A'' \<le> ''C''" by (simp add: groupby_mean_tie)
  with 1 2 3 4 groupby_mean_AB show ?thesis by simp
qed

subsection \<open>The correlation matrix\<close>

lemma complete_pairs_swap:
  "complete_pairs b a = map (\<lambda>(x, y). (y, x)) (complete_pairs a b)"
  by (induction a b rule: complete_pairs.induct) simp_all

lemma complete_pairs_self: "complete_pairs a a = map (\<lambda>x. (x, x)) (dropna a)"
  by (induction a rule: dropna.induct) simp_all

lemma dropna_Cons_subset: "set (dropna a) \<subseteq> set (dropna (u # a))"
  by (cases u) auto

lemma complete_pairs_fst: "set (map fst (complete_pairs a b)) \<subseteq> set (dropna a)"
proof (induction a b rule: complete_pairs.induct)
  case (1 x a y b)
  then show ?case by auto
qed (use dropna_Cons_subset in force)+

lemma corr_unfold:
  "corr a b =
     (let ps = complete_pairs a b; xs = map fst ps; ys = map snd ps
      in if ps = [] then NaN
         else if sqrt (ssqdm xs * ssqdm ys) \<noteq> 0
           then Num (max (- 1) (min 1
             ((\<Sum>(x, y)\<leftarrow>ps. (x - avg xs) * (y - avg ys)) / sqrt (ssqdm xs * ssqdm ys))))
           else NaN)"
  by (cases "complete_pairs a b") (simp_all add: corr_def ssqdm_def Let_def)

lemma corr_sym: "corr a b = corr b a"
proof -
  let ?ps = "complete_pairs a b"
  have f: "map fst (complete_pairs b a) = map snd ?ps" "map snd (complete_pairs b a) = map fst ?ps"
    by (simp_all add: complete_pairs_swap [of b a] case_prod_unfold comp_def)
  have c: "(\<Sum>(x, y)\<leftarrow>complete_pairs b a. (x - u) * (y - v)) = (\<Sum>(x, y)\<leftarrow>?ps. (x - v) * (y - u))" for u v
    by (simp add: complete_pairs_swap [of b a] case_prod_unfold comp_def mult.commute)
  have e: "complete_pairs b a = [] \<longleftrightarrow> ?ps = []"
    by (simp add: complete_pairs_swap [of b a])
  show ?thesis
    unfolding corr_unfold [of a b] corr_unfold [of b a] Let_def f c e
    by (simp add: mult.commute)
qed

lemma ssqdm_nonneg: "0 \<le> ssqdm xs"
  unfolding ssqdm_def by (rule sum_list_nonneg) auto

lemma ssqdm_constant:
  assumes "\<forall>x \<in> set xs. x = c"
  shows "ssqdm xs = 0"
proof (cases "xs = []")
  case True
  then show ?thesis by (simp add: ssqdm_def)
next
  case False
  from assms have "xs = replicate (length xs) c"
    by (simp add: replicate_length_same)
  then have "sum_list xs = real (length xs) * c"
    by (metis sum_list_replicate)
  with False have "avg xs = c" by (simp add: avg_def)
  with assms have "\<forall>x \<in> set xs. (x - avg xs) * (x - avg xs) = 0" by simp
  then show ?thesis unfolding ssqdm_def by (simp add: sum_list_0 cong: map_cong)
qed

lemma ssqdm_zero_constant:
  assumes "ssqdm xs = 0" "x \<in> set xs"
  shows "x = avg xs"
proof -
  have "\<forall>y \<in> set (map (\<lambda>x. (x - avg xs) * (x - avg xs)) xs). 0 \<le> y" by auto
  with assms(1) have "\<forall>y \<in> set (map (\<lambda>x. (x - avg xs) * (x - avg xs)) xs). y = 0"
    unfolding ssqdm_def using sum_list_nonneg_eq_0_iff by blast
  with assms(2) have "(x - avg xs) * (x - avg xs) = 0" by simp
  then show ?thesis by simp
qed

lemma corr_self_nonconstant:
  assumes "\<not> constant_col a"
  shows "corr a a = Num 1"
proof -
  let ?xs = "dropna a"
  from assms obtain x y where xy: "x \<in> set ?xs" "y \<in> set ?xs" "x \<noteq> y"
    by (auto simp: constant_col_def)
  have nz: "ssqdm ?xs \<noteq> 0"
  proof
    assume "ssqdm ?xs = 0"
    then have "x = avg ?xs" "y = avg ?xs" using xy by (auto dest: ssqdm_zero_constant)
    with xy show False by simp
  qed
  with ssqdm_nonneg [of ?xs] have pos: "0 < ssqdm ?xs" by simp
  have ne: "complete_pairs a a \<noteq> []" using xy by (auto simp: complete_pairs_self)
  have m: "map fst (complete_pairs a a) = ?xs" "map snd (complete_pairs a a) = ?xs"
    by (simp_all add: complete_pairs_self comp_def)
  have c: "(\<Sum>(x, y)\<leftarrow>complete_pairs a a. (x - avg ?xs) * (y - avg ?xs)) = ssqdm ?xs"
    by (simp add: complete_pairs_self comp_def ssqdm_def)
  show ?thesis
    unfolding corr_unfold [of a a] Let_def m c using ne pos by simp
qed

lemma corr_constant:
  assumes "constant_col a"
  shows "corr a b = NaN"
proof (cases "complete_pairs a b = []")
  case True
  then show ?thesis by (simp add: corr_unfold)
next
  case False
  let ?xs = "map fst (complete_pairs a b)"
  from False obtain c where "c \<in> set ?xs" by (cases "complete_pairs a b") auto
  have "\<forall>x \<in> set ?xs. x = c"
  proof
    fix x assume "x \<in> set ?xs"
    with \<open>c \<in> set ?xs\<close> complete_pairs_fst [of a b] have "x \<in> set (dropna a)" "c \<in> set (dropna a)"
      by blast+
    with assms show "x = c" by (simp add: constant_col_def)
  qed
  then have "ssqdm ?xs = 0" by (rule ssqdm_constant)
  then show ?thesis by (simp add: corr_unfold Let_def)
qed

lemma select_cols_total:
  "set cols \<subseteq> dom (numeric df) \<Longrightarrow> select_cols df cols = Inr (map (\<lambda>c. the (numeric df c)) cols)"
  by (induction cols) (auto simp: getitem_def)

lemma corr_matrix_nth:
  "i < length ss \<Longrightarrow> j < length ss \<Longrightarrow> corr_matrix ss ! i ! j = corr (ss ! i) (ss ! j)"
  by (simp add: corr_matrix_def)

text \<open>
  Claim C5. On a table that has the six columns of the correlation set the matrix is
  computed without an error. It is symmetric; the diagonal entry of a column that is not
  constant is 1; and every entry in the row and the column of a constant column is NaN,
  the marker pandas prints for an undefined coefficient.
\<close>

theorem correlation_matrix_symmetric_unit_diagonal:
  assumes "set correlation_cols \<subseteq> dom (numeric df)"
  shows "\<exists>m. correlation_matrix df = Inr m \<and>
    (\<forall>i < length correlation_cols. \<forall>j < length correlation_cols.
       \<exists>a b. numeric df (correlation_cols ! i) = Some a \<and>
         numeric df (correlation_cols ! j) = Some b \<and>
         m ! i ! j = corr a b \<and> m ! j ! i = m ! i ! j \<and>
         (\<not> constant_col a \<longrightarrow> m ! i ! i = Num 1) \<and>
         (constant_col a \<longrightarrow> m ! i ! j = NaN \<and> m ! j ! i = NaN))"
proof -
  let ?ss = "map (\<lambda>c. the (numeric df c)) correlation_cols"
  let ?m = "corr_matrix ?ss"
  have m: "correlation_matrix df = Inr ?m"
    using assms by (simp add: correlation_matrix_def select_cols_total)
  have "\<exists>a b. numeric df (correlation_cols ! i) = Some a \<and>
         numeric df (correlation_cols ! j) = Some b \<and>
         ?m ! i ! j = corr a b \<and> ?m ! j ! i = ?m ! i ! j \<and>
         (\<not> constant_col a \<longrightarrow> ?m ! i ! i = Num 1) \<and>
         (constant_col a \<longrightarrow> ?m ! i ! j = NaN \<and> ?m ! j ! i = NaN)"
    if i: "i < length correlation_cols" and j: "j < length correlation_cols" for i j
  proof -
    from assms i j obtain a b where a: "numeric df (correlation_cols ! i) = Some a"
      and b: "numeric df (correlation_cols ! j) = Some b"
      by (meson domD nth_mem subsetD)
    have ij: "?m ! i ! j = corr a b" and ji: "?m ! j ! i = corr b a" and ii: "?m ! i ! i = corr a a"
      using i j a b by (simp_all add: corr_matrix_nth)
    have "?m ! j ! i = ?m ! i ! j" using ij ji corr_sym [of a b] by simp
    moreover have "?m ! i ! i = Num 1" if "\<not> constant_col a"
      using that ii by (simp add: corr_self_nonconstant)
    moreover have "?m ! i ! j = NaN \<and> ?m ! j ! i = NaN" if "constant_col a"
      using that ij ji corr_constant [of a b] corr_sym [of b a] by simp
    ultimately show ?thesis using a b ij by blast
  qed
  with m show ?thesis by blast
qed

lemma example_df_corr_dom: "set correlation_cols \<subseteq> dom (numeric example_df)"
  by (simp add: correlation_cols_def pollutants_def example_df_def)

theorem correlation_matrix_symmetric_unit_diagonal_witness:
  "set correlation_cols \<subseteq> dom (numeric example_df) \<and>
   \<not> constant_col [Num 40, Num 41, NaN, Num 43, Num 44] \<and>
   constant_col [Num 7, Num 7, Num 7, Num 7, Num 7] \<and>
   (\<exists>m. correlation_matrix example_df = Inr m \<and> m ! 1 ! 1 = Num 1 \<and>
      m ! 3 ! 1 = NaN \<and> m ! 1 ! 3 = NaN \<and> m ! 3 ! 3 = NaN)"
proof -
  from correlation_matrix_symmetric_unit_diagonal [OF example_df_corr_dom]
  obtain m where m: "correlation_matrix example_df = Inr m"
    and all: "\<And>i j. i < length correlation_cols \<Longrightarrow> j < length correlation_cols \<Longrightarrow>
       \<exists>a b. numeric example_df (correlation_cols ! i) = Some a \<and>
         numeric example_df (correlation_cols ! j) = Some b \<and>
         m ! i ! j = corr a b \<and> m ! j ! i = m ! i ! j \<and>
         (\<not> constant_col a \<longrightarrow> m ! i ! i = Num 1) \<and>
         (constant_col a \<longrightarrow> m ! i ! j = NaN \<and> m ! j ! i = NaN)"
    by blast
  have n: "\<not> constant_col [Num 40, Num 41, NaN, Num 43, Num 44]"
    and c: "constant_col [Num 7, Num 7, Num 7, Num 7, Num 7]"
    by (simp_all add: constant_col_def)
  have l: "(1::nat) < length correlation_cols" "(3::nat) < length correlation_cols"
    by (simp_all add: correlation_cols_def pollutants_def)
  have c1: "numeric example_df (correlation_cols ! 1) = Some [Num 40, Num 41, NaN, Num 43, Num 44]"
    and c3: "numeric example_df (correlation_cols ! 3) = Some [Num 7, Num 7, Num 7, Num 7, Num 7]"
    by (simp_all add: correlation_cols_def pollutants_def example_df_def numeral_3_eq_3)
  from all [OF l(1) l(1)] c1 n have 11: "m ! 1 ! 1 = Num 1" by auto
  from all [OF l(2) l(1)] c3 c have 31: "m ! 3 ! 1 = NaN" "m ! 1 ! 3 = NaN" by auto
  from all [OF l(2) l(2)] c3 c have 33: "m ! 3 ! 3 = NaN" by auto
  from example_df_corr_dom n c m 11 31 33 show ?thesis by blast
qed

end
